theory Spec2Isabelle
  imports
    Main
    "HOL-Library.AList"
    "HOL-Library.FSet"
    "HOL-Library.Char_ord"
    "HOL-Library.List_Lexorder"
begin

section \<open>Strings\<close>

text \<open>
  A Python \<open>str\<close> is modelled as a \<open>string\<close> whose characters are the code points
  below 256. On these, \<open>str.isspace\<close> holds for the code points 9 to 13, 28 to 32, 133
  and 160, and \<open>str.lower\<close> moves the letters A to Z and the capital letters of the
  range 192 to 222 (215, the multiplication sign, apart) up by 32.
\<close>

type_synonym gene = string

definition isspace :: "char \<Rightarrow> bool" where
  "isspace c =
     (let n = (of_char c :: nat)
      in (9 \<le> n \<and> n \<le> 13) \<or> (28 \<le> n \<and> n \<le> 32) \<or> n = 133 \<or> n = 160)"

definition lower_char :: "char \<Rightarrow> char" where
  "lower_char c =
     (let n = (of_char c :: nat)
      in if (65 \<le> n \<and> n \<le> 90) \<or> (192 \<le> n \<and> n \<le> 222 \<and> n \<noteq> 215)
         then char_of (n + 32) else c)"

definition lower :: "string \<Rightarrow> string" where
  "lower s = map lower_char s"

definition strip :: "string \<Rightarrow> string" where
  "strip s = rev (dropWhile isspace (rev (dropWhile isspace s)))"

text \<open>\<open>s.split(sep)\<close> for a one-character separator: one piece more than there are
  separators in \<open>s\<close>, empty pieces included.\<close>

fun split :: "char \<Rightarrow> string \<Rightarrow> string list" where
  "split sep [] = [[]]"
| "split sep (c # cs) =
     (if c = sep then [] # split sep cs
      else (case split sep cs of
              [] \<Rightarrow> [[c]]
            | p # ps \<Rightarrow> (c # p) # ps))"

text \<open>\<open>sep.join(xs)\<close>.\<close>

fun join :: "string \<Rightarrow> string list \<Rightarrow> string" where
  "join sep [] = []"
| "join sep [x] = x"
| "join sep (x # y # ys) = x @ sep @ join sep (y # ys)"

text \<open>\<open>str(b)\<close> for a boolean.\<close>

definition str_bool :: "bool \<Rightarrow> string" where
  "str_bool b = (if b then ''True'' else ''False'')"

section \<open>The synonym index\<close>

text \<open>
  A Python \<open>dict\<close> keeps its keys in insertion order and an assignment to a key that is
  already there replaces the value in place: an association list under \<open>AList.update\<close>.
  A Python \<open>set\<close> is a finite set. \<open>gene_dict.items()\<close> is the list itself,
  \<open>gene in gene_dict\<close> and \<open>gene_dict[gene]\<close> are \<open>map_of\<close>.
\<close>

type_synonym gene_dict = "(gene \<times> gene fset) list"

datatype error = ValueError | TypeError | AttributeError

text \<open>
  What \<open>csv.DictReader\<close> hands to \<open>load_gene_info\<close>: \<open>reader.fieldnames\<close>, the cells
  of the first line, or \<open>None\<close> when the file has no line at all; and one dict for each
  further line, of which the code reads \<open>row['Symbol']\<close> and \<open>row['Synonyms']\<close>.
  The reader fills the columns that a short line leaves out with \<open>None\<close>.
\<close>

record row =
  row_Symbol :: "string option"
  row_Synonyms :: "string option"

text \<open>The right-hand side of line 31: the synonyms of one row, as a list.\<close>

definition row_synonyms :: "string option \<Rightarrow> string list" where
  "row_synonyms field =
     (case field of
        None \<Rightarrow> []
      | Some s \<Rightarrow> if s = [] then [] else map (\<lambda>syn. lower (strip syn)) (split CHR ''|'' s))"

text \<open>The loop of lines 29 to 32. \<open>None.strip()\<close> raises \<open>AttributeError\<close>.\<close>

fun load_rows :: "row list \<Rightarrow> gene_dict \<Rightarrow> error + gene_dict" where
  "load_rows [] gene_dict = Inr gene_dict"
| "load_rows (r # rows) gene_dict =
     (case row_Symbol r of
        None \<Rightarrow> Inl AttributeError
      | Some symbol \<Rightarrow>
          (let gene_name = lower (strip symbol);
               synonyms = row_synonyms (row_Synonyms r)
           in load_rows rows (AList.update gene_name (fset_of_list synonyms) gene_dict)))"

text \<open>The key that line 30 computes for a row, and the assignment of line 32 for a row
  that has a symbol.\<close>

definition row_key :: "row \<Rightarrow> gene option" where
  "row_key r = map_option (\<lambda>symbol. lower (strip symbol)) (row_Symbol r)"

definition store_row :: "row \<Rightarrow> gene_dict \<Rightarrow> gene_dict" where
  "store_row r = AList.update (the (row_key r)) (fset_of_list (row_synonyms (row_Synonyms r)))"

text \<open>\<open>set(None)\<close> raises \<open>TypeError\<close>; the exception handler prints and raises again.\<close>

definition load_gene_info :: "string list option \<Rightarrow> row list \<Rightarrow> error + gene_dict" where
  "load_gene_info fieldnames rows =
     (case fieldnames of
        None \<Rightarrow> Inl TypeError
      | Some fs \<Rightarrow>
          if \<not> ({''Symbol'', ''Synonyms''} \<subseteq> set fs) then Inl ValueError
          else load_rows rows [])"

section \<open>Expansion\<close>

text \<open>The loop of lines 46 to 49 over the genes in the order the iteration yields them,
  with \<open>expanded_set\<close> as the accumulator.\<close>

fun expand_loop :: "gene list \<Rightarrow> gene_dict \<Rightarrow> gene fset \<Rightarrow> gene fset" where
  "expand_loop [] gene_dict expanded_set = expanded_set"
| "expand_loop (gene # genes) gene_dict expanded_set =
     (let expanded_set = finsert gene expanded_set
      in expand_loop genes gene_dict
           (case map_of gene_dict gene of
              None \<Rightarrow> expanded_set
            | Some synonyms \<Rightarrow> expanded_set |\<union>| synonyms))"

text \<open>Python leaves the iteration order of a set open; the model iterates in sorted order,
  and \<open>expand_loop_any_order\<close> below shows that the order does not matter.\<close>

definition expand_gene_set_with_synonyms :: "gene fset \<Rightarrow> gene_dict \<Rightarrow> gene fset" where
  "expand_gene_set_with_synonyms gene_set gene_dict =
     expand_loop (sorted_list_of_fset gene_set) gene_dict {||}"

section \<open>Expansion on a store of objects\<close>

text \<open>
  Python passes sets by reference, and \<open>add\<close> and \<open>update\<close> change an object in
  place. To say what \<open>expand_gene_set_with_synonyms\<close> leaves alone, the set objects live
  in a store, a list indexed by address: \<open>gene_set\<close> is the address of the input set, the
  values of \<open>gene_dict\<close> are the addresses of the synonym sets, and \<open>set()\<close> allocates
  the next address. The function assigns to no key of \<open>gene_dict\<close>, which is passed as a
  value. \<open>deref\<close> reads the index out of the store.
\<close>

type_synonym addr = nat
type_synonym store = "gene fset list"
type_synonym dict_refs = "(gene \<times> addr) list"

fun expand_loop_store :: "gene list \<Rightarrow> dict_refs \<Rightarrow> addr \<Rightarrow> store \<Rightarrow> store" where
  "expand_loop_store [] gene_dict expanded_set st = st"
| "expand_loop_store (gene # genes) gene_dict expanded_set st =
     (let st = st[expanded_set := finsert gene (st ! expanded_set)]
      in expand_loop_store genes gene_dict expanded_set
           (case map_of gene_dict gene of
              None \<Rightarrow> st
            | Some synonyms \<Rightarrow> st[expanded_set := (st ! expanded_set) |\<union>| (st ! synonyms)]))"

definition expand_gene_set_with_synonyms_store :: "addr \<Rightarrow> dict_refs \<Rightarrow> store \<Rightarrow> addr \<times> store" where
  "expand_gene_set_with_synonyms_store gene_set gene_dict st =
     (let expanded_set = length st;
          st' = st @ [{||}]
      in (expanded_set,
          expand_loop_store (sorted_list_of_fset (st ! gene_set)) gene_dict expanded_set st'))"

definition deref :: "store \<Rightarrow> dict_refs \<Rightarrow> gene_dict" where
  "deref st gene_dict = map (\<lambda>(k, a). (k, st ! a)) gene_dict"

section \<open>Comparison\<close>

record result_record =
  Gene :: string
  Synonyms :: string
  Present_in_A :: string

text \<open>The inner loop of lines 71 to 75: the first item of the dict that \<open>gene_b\<close> matches,
  where the loop breaks.\<close>

fun find_match :: "gene \<Rightarrow> gene_dict \<Rightarrow> (gene \<times> gene fset) option" where
  "find_match gene_b [] = None"
| "find_match gene_b ((gene_name, synonyms) # items) =
     (if gene_b = gene_name \<or> gene_b |\<in>| synonyms then Some (gene_name, synonyms)
      else find_match gene_b items)"

text \<open>The body of the outer loop, lines 67 to 84.\<close>

definition compare_gene :: "gene_dict \<Rightarrow> gene fset \<Rightarrow> gene \<Rightarrow> result_record" where
  "compare_gene gene_dict expanded_file_a gene_b =
     (let (synonyms_b, present_in_a) =
            (case find_match gene_b gene_dict of
               None \<Rightarrow> ({||}, False)
             | Some (gene_name, synonyms) \<Rightarrow>
                 (finsert gene_name synonyms,
                  gene_name |\<in>| expanded_file_a \<or> (\<exists>syn |\<in>| synonyms. syn |\<in>| expanded_file_a)));
          synonyms_b = synonyms_b |-| {|gene_b|}
      in \<lparr>Gene = gene_b,
          Synonyms = join ''|'' (sorted_list_of_fset synonyms_b),
          Present_in_A = str_bool present_in_a\<rparr>)"

text \<open>The outer loop over the genes of set B in the order the iteration yields them.\<close>

fun compare_loop :: "gene_dict \<Rightarrow> gene fset \<Rightarrow> gene list \<Rightarrow> result_record list" where
  "compare_loop gene_dict expanded_file_a [] = []"
| "compare_loop gene_dict expanded_file_a (gene_b # genes) =
     compare_gene gene_dict expanded_file_a gene_b # compare_loop gene_dict expanded_file_a genes"

text \<open>As in the expansion, the iteration over \<open>file_b_genes\<close> is in sorted order here;
  \<open>compare_loop_count\<close> and \<open>compare_loop_any_order\<close> below hold for every order.\<close>

definition compare_files :: "gene_dict \<Rightarrow> gene fset \<Rightarrow> gene fset \<Rightarrow> result_record list" where
  "compare_files gene_dict file_a_genes file_b_genes =
     (let expanded_file_a = expand_gene_set_with_synonyms file_a_genes gene_dict
      in compare_loop gene_dict expanded_file_a (sorted_list_of_fset file_b_genes))"

section \<open>The run\<close>

text \<open>\<open>read_gene_file\<close> on the lines of a file.\<close>

definition read_gene_file :: "string list \<Rightarrow> gene fset" where
  "read_gene_file lines = fset_of_list (map (\<lambda>line. lower (strip line)) (filter (\<lambda>line. strip line \<noteq> []) lines))"

text \<open>The \<open>try\<close> block of \<open>main\<close>, lines 134 to 145: an exception of \<open>load_gene_info\<close>
  leaves the block before the files are read and compared.\<close>

definition main :: "string list option \<Rightarrow> row list \<Rightarrow> string list \<Rightarrow> string list \<Rightarrow> error + result_record list" where
  "main fieldnames rows lines_a lines_b =
     (case load_gene_info fieldnames rows of
        Inl e \<Rightarrow> Inl e
      | Inr gene_dict \<Rightarrow>
          (let file_a_genes = read_gene_file lines_a;
               file_b_genes = read_gene_file lines_b
           in Inr (compare_files gene_dict file_a_genes file_b_genes)))"

section \<open>Properties of the string functions\<close>

text \<open>\<open>split\<close> is Python's: one piece more than separators, no separator inside a
  piece, and joining the pieces with the separator gives the string back.\<close>

lemma split_not_Nil: "split sep s \<noteq> []"
  by (induction s) (auto split: list.splits)

lemma length_split: "length (split sep s) = Suc (count_list s sep)"
  by (induction s) (auto split: list.splits simp: split_not_Nil)

lemma split_pieces_free: "p \<in> set (split sep s) \<Longrightarrow> sep \<notin> set p"
  by (induction s arbitrary: p) (auto split: list.splits if_splits)

lemma join_split: "join [sep] (split sep s) = s"
proof (induction s)
  case Nil
  show ?case by simp
next
  case (Cons c cs)
  obtain p ps where ps: "split sep cs = p # ps"
    using split_not_Nil [of sep cs] by (cases "split sep cs") auto
  show ?case
  proof (cases "c = sep")
    case True
    with Cons ps show ?thesis by simp
  next
    case False
    with Cons ps show ?thesis by (cases ps) auto
  qed
qed

lemma dropWhile_all_iff: "(\<forall>x \<in> set (dropWhile P s). P x) \<longleftrightarrow> (\<forall>x \<in> set s. P x)"
proof
  assume a: "\<forall>x \<in> set (dropWhile P s). P x"
  have "dropWhile P s = []"
  proof (rule ccontr)
    assume ne: "dropWhile P s \<noteq> []"
    then have "\<not> P (hd (dropWhile P s))" by (rule hd_dropWhile)
    moreover from ne have "hd (dropWhile P s) \<in> set (dropWhile P s)" by simp
    ultimately show False using a by blast
  qed
  then show "\<forall>x \<in> set s. P x" by simp
next
  assume "\<forall>x \<in> set s. P x"
  then show "\<forall>x \<in> set (dropWhile P s). P x" by (auto dest: set_dropWhileD)
qed

lemma strip_Nil_iff: "strip s = [] \<longleftrightarrow> (\<forall>c \<in> set s. isspace c)"
  by (simp add: strip_def dropWhile_all_iff)

lemma lower_Nil_iff: "lower s = [] \<longleftrightarrow> s = []"
  by (simp add: lower_def)

section \<open>Properties of expansion\<close>

lemma expand_loop_member:
  "x |\<in>| expand_loop genes d acc \<longleftrightarrow>
     x |\<in>| acc \<or> x \<in> set genes \<or> (\<exists>g syns. g \<in> set genes \<and> map_of d g = Some syns \<and> x |\<in>| syns)"
proof (induction genes arbitrary: acc)
  case Nil
  show ?case by simp
next
  case (Cons gene genes)
  show ?case
  proof (cases "map_of d gene")
    case None
    then show ?thesis by (auto simp: Cons.IH)
  next
    case (Some syns)
    then show ?thesis by (auto simp: Cons.IH)
  qed
qed

lemma expand_loop_any_order:
  "set xs = set ys \<Longrightarrow> expand_loop xs d acc = expand_loop ys d acc"
  by (rule fset_eqI) (simp add: expand_loop_member)

lemma expand_member:
  "x |\<in>| expand_gene_set_with_synonyms S d \<longleftrightarrow>
     x |\<in>| S \<or> (\<exists>g syns. g |\<in>| S \<and> map_of d g = Some syns \<and> x |\<in>| syns)"
  by (simp add: expand_gene_set_with_synonyms_def expand_loop_member)

lemma expand_superset: "S |\<subseteq>| expand_gene_set_with_synonyms S d"
  by (auto simp: expand_member)

text \<open>
  C4: the expanded set holds exactly the genes of the input set and, for each of them that
  is a key of the index, the synonyms under that key. A gene that is not a key adds only
  itself, also when it is a synonym under some key.
\<close>

theorem expand_contains_exactly:
  "(x |\<in>| expand_gene_set_with_synonyms S d \<longleftrightarrow>
      x |\<in>| S \<or> (\<exists>g syns. g |\<in>| S \<and> map_of d g = Some syns \<and> x |\<in>| syns))
   \<and> (map_of d g' = None \<longrightarrow>
        expand_gene_set_with_synonyms (finsert g' S) d = finsert g' (expand_gene_set_with_synonyms S d))"
proof (intro conjI impI)
  show "x |\<in>| expand_gene_set_with_synonyms S d \<longleftrightarrow>
      x |\<in>| S \<or> (\<exists>g syns. g |\<in>| S \<and> map_of d g = Some syns \<and> x |\<in>| syns)"
    by (rule expand_member)
next
  assume "map_of d g' = None"
  then show "expand_gene_set_with_synonyms (finsert g' S) d = finsert g' (expand_gene_set_with_synonyms S d)"
    by (intro fset_eqI) (auto simp: expand_member)
qed

theorem expand_contains_exactly_witness:
  "map_of [(''foo'', {|''bar'', ''baz''|})] ''bar'' = None
   \<and> expand_gene_set_with_synonyms (finsert ''bar'' {||}) [(''foo'', {|''bar'', ''baz''|})]
       = finsert ''bar'' (expand_gene_set_with_synonyms {||} [(''foo'', {|''bar'', ''baz''|})])
   \<and> (''baz'' |\<in>| expand_gene_set_with_synonyms {|''foo''|} [(''foo'', {|''bar'', ''baz''|})])"
proof -
  have h: "map_of [(''foo'', {|''bar'', ''baz''|})] ''bar'' = None" by simp
  have m: "map_of [(''foo'', {|''bar'', ''baz''|})] ''foo'' = Some {|''bar'', ''baz''|}" by simp
  note t = expand_contains_exactly [of "''baz''" "{|''foo''|}" "[(''foo'', {|''bar'', ''baz''|})]" "''bar''"]
  note u = expand_contains_exactly [of "''baz''" "{||}" "[(''foo'', {|''bar'', ''baz''|})]" "''bar''"]
  from t m have "''baz'' |\<in>| expand_gene_set_with_synonyms {|''foo''|} [(''foo'', {|''bar'', ''baz''|})]"
    by auto
  moreover from u h have "expand_gene_set_with_synonyms (finsert ''bar'' {||}) [(''foo'', {|''bar'', ''baz''|})]
       = finsert ''bar'' (expand_gene_set_with_synonyms {||} [(''foo'', {|''bar'', ''baz''|})])"
    by blast
  ultimately show ?thesis using h by blast
qed

text \<open>
  C2, as the spec has it, fails: a synonym that the first expansion adds can be a key with
  synonyms of its own, which the second expansion adds.
\<close>

theorem expand_not_idempotent:
  "expand_gene_set_with_synonyms
     (expand_gene_set_with_synonyms {|''a''|} [(''a'', {|''b''|}), (''b'', {|''c''|})])
     [(''a'', {|''b''|}), (''b'', {|''c''|})]
   \<noteq> expand_gene_set_with_synonyms {|''a''|} [(''a'', {|''b''|}), (''b'', {|''c''|})]"
  by code_simp

text \<open>
  C2, amended: expanding twice never loses a name, and gives the same set as expanding once
  exactly when every key of the index inside the expanded set has all its synonyms there.
\<close>

theorem expand_twice:
  "expand_gene_set_with_synonyms S d |\<subseteq>| expand_gene_set_with_synonyms (expand_gene_set_with_synonyms S d) d
   \<and> (expand_gene_set_with_synonyms (expand_gene_set_with_synonyms S d) d = expand_gene_set_with_synonyms S d
        \<longleftrightarrow> (\<forall>g syns. g |\<in>| expand_gene_set_with_synonyms S d \<and> map_of d g = Some syns
               \<longrightarrow> syns |\<subseteq>| expand_gene_set_with_synonyms S d))"
proof (intro conjI iffI allI impI)
  show "expand_gene_set_with_synonyms S d |\<subseteq>| expand_gene_set_with_synonyms (expand_gene_set_with_synonyms S d) d"
    by (rule expand_superset)
next
  fix g syns
  assume eq: "expand_gene_set_with_synonyms (expand_gene_set_with_synonyms S d) d = expand_gene_set_with_synonyms S d"
    and g: "g |\<in>| expand_gene_set_with_synonyms S d \<and> map_of d g = Some syns"
  show "syns |\<subseteq>| expand_gene_set_with_synonyms S d"
  proof
    fix x assume "x |\<in>| syns"
    with g have "x |\<in>| expand_gene_set_with_synonyms (expand_gene_set_with_synonyms S d) d"
      by (subst expand_member) blast
    with eq show "x |\<in>| expand_gene_set_with_synonyms S d" by simp
  qed
next
  assume closed: "\<forall>g syns. g |\<in>| expand_gene_set_with_synonyms S d \<and> map_of d g = Some syns
               \<longrightarrow> syns |\<subseteq>| expand_gene_set_with_synonyms S d"
  show "expand_gene_set_with_synonyms (expand_gene_set_with_synonyms S d) d = expand_gene_set_with_synonyms S d"
  proof (rule fset_eqI)
    fix x
    show "x |\<in>| expand_gene_set_with_synonyms (expand_gene_set_with_synonyms S d) d
          \<longleftrightarrow> x |\<in>| expand_gene_set_with_synonyms S d"
      using closed by (subst expand_member) blast
  qed
qed

theorem expand_twice_witness:
  "expand_gene_set_with_synonyms {|''tp53''|} [(''tp53'', {|''p53''|})] = {|''tp53'', ''p53''|}
   \<and> expand_gene_set_with_synonyms (expand_gene_set_with_synonyms {|''tp53''|} [(''tp53'', {|''p53''|})])
        [(''tp53'', {|''p53''|})]
      = expand_gene_set_with_synonyms {|''tp53''|} [(''tp53'', {|''p53''|})]"
proof -
  have e: "expand_gene_set_with_synonyms {|''tp53''|} [(''tp53'', {|''p53''|})] = {|''tp53'', ''p53''|}"
    by code_simp
  have h: "\<forall>g syns. g |\<in>| expand_gene_set_with_synonyms {|''tp53''|} [(''tp53'', {|''p53''|})]
        \<and> map_of [(''tp53'', {|''p53''|})] g = Some syns
      \<longrightarrow> syns |\<subseteq>| expand_gene_set_with_synonyms {|''tp53''|} [(''tp53'', {|''p53''|})]"
    unfolding e by (auto split: if_splits)
  with expand_twice [of "{|''tp53''|}" "[(''tp53'', {|''p53''|})]"] e show ?thesis by blast
qed

section \<open>Expansion leaves its arguments alone\<close>

lemma map_of_deref: "map_of (deref st d) g = map_option (\<lambda>a. st ! a) (map_of d g)"
  by (induction d) (auto simp: deref_def)

lemma deref_cong: "(\<And>k a. (k, a) \<in> set d \<Longrightarrow> st ! a = st' ! a) \<Longrightarrow> deref st d = deref st' d"
  by (auto simp: deref_def)

lemma deref_update:
  assumes "\<And>k a. (k, a) \<in> set d \<Longrightarrow> a \<noteq> e"
  shows "deref (st[e := v]) d = deref st d"
proof (rule deref_cong)
  fix k a
  assume "(k, a) \<in> set d"
  then have "a \<noteq> e" by (rule assms)
  then show "st[e := v] ! a = st ! a" by simp
qed

lemma expand_loop_store_length:
  "length (expand_loop_store genes d e st) = length st"
  by (induction genes arbitrary: st) (auto simp: Let_def split: option.splits)

lemma expand_loop_store_frame:
  "a \<noteq> e \<Longrightarrow> expand_loop_store genes d e st ! a = st ! a"
  by (induction genes arbitrary: st) (auto simp: Let_def split: option.splits)

lemma expand_loop_store_value:
  assumes "e < length st" and "\<And>k a. (k, a) \<in> set d \<Longrightarrow> a \<noteq> e"
  shows "expand_loop_store genes d e st ! e = expand_loop genes (deref st d) (st ! e)"
  using assms
proof (induction genes arbitrary: st)
  case Nil
  show ?case by simp
next
  case (Cons gene genes)
  let ?st1 = "st[e := finsert gene (st ! e)]"
  show ?case
  proof (cases "map_of d gene")
    case None
    have "deref ?st1 d = deref st d"
      using Cons.prems(2) by (rule deref_update)
    with None Cons.IH [of ?st1] Cons.prems show ?thesis
      by (simp add: map_of_deref)
  next
    case (Some a)
    then have "(gene, a) \<in> set d" by (rule map_of_SomeD)
    then have ae: "a \<noteq> e" by (rule Cons.prems(2))
    let ?st2 = "?st1[e := (?st1 ! e) |\<union>| (?st1 ! a)]"
    have "deref ?st2 d = deref st d"
      using Cons.prems(2) by (simp add: deref_update)
    with Some ae Cons.IH [of ?st2] Cons.prems show ?thesis
      by (simp add: map_of_deref)
  qed
qed

lemma expand_size: "fcard S \<le> fcard (expand_gene_set_with_synonyms S d)"
  by (rule fcard_mono) (rule expand_superset)

text \<open>
  C7: the expanded set is at least as large as the input set, and the function is pure. On
  the store: the result is a new object, every object that was there before the call (the
  input set and the synonym sets of the index among them) is unchanged, the index reads as
  before, and the new object holds the set that the function on values computes.
\<close>

theorem expand_size_and_purity:
  assumes "gene_set < length st"
    and "\<forall>(k, a) \<in> set gene_dict. a < length st"
    and "expand_gene_set_with_synonyms_store gene_set gene_dict st = (expanded_set, st')"
  shows "fcard S \<le> fcard (expand_gene_set_with_synonyms S d)
         \<and> fcard (st ! gene_set) \<le> fcard (st' ! expanded_set)
         \<and> st' ! expanded_set = expand_gene_set_with_synonyms (st ! gene_set) (deref st gene_dict)
         \<and> expanded_set = length st \<and> length st' = Suc (length st)
         \<and> take (length st) st' = st
         \<and> deref st' gene_dict = deref st gene_dict"
proof -
  let ?st0 = "st @ [{||}]"
  let ?genes = "sorted_list_of_fset (st ! gene_set)"
  from assms(3) have e: "expanded_set = length st"
    and st': "st' = expand_loop_store ?genes gene_dict (length st) ?st0"
    by (auto simp add: expand_gene_set_with_synonyms_store_def Let_def)
  have len: "length st' = Suc (length st)"
    by (simp add: st' expand_loop_store_length)
  have old: "st' ! a = st ! a" if "a < length st" for a
    using that by (simp add: st' expand_loop_store_frame nth_append)
  have frame: "take (length st) st' = st"
    by (rule nth_equalityI) (simp_all add: len old)
  have ne: "a \<noteq> length st" if "(k, a) \<in> set gene_dict" for k a
    using that assms(2) by auto
  have d0: "deref ?st0 gene_dict = deref st gene_dict"
    using assms(2) by (intro deref_cong) (auto simp: nth_append)
  have "st' ! length st = expand_loop ?genes (deref ?st0 gene_dict) (?st0 ! length st)"
    unfolding st' by (rule expand_loop_store_value) (simp_all add: ne)
  then have val: "st' ! expanded_set = expand_gene_set_with_synonyms (st ! gene_set) (deref st gene_dict)"
    by (simp add: e d0 expand_gene_set_with_synonyms_def)
  have dd: "deref st' gene_dict = deref st gene_dict"
    using assms(2) by (intro deref_cong) (auto simp: old)
  from val have "fcard (st ! gene_set) \<le> fcard (st' ! expanded_set)"
    by (simp add: expand_size)
  with val e len frame dd show ?thesis by (simp add: expand_size)
qed

theorem expand_size_and_purity_witness:
  "expand_gene_set_with_synonyms_store 0 [(''tp53'', 1)]
       [{|''tp53'', ''x''|}, {|''p53'', ''trp53''|}]
     = (2, [{|''tp53'', ''x''|}, {|''p53'', ''trp53''|}, {|''tp53'', ''x'', ''p53'', ''trp53''|}])
   \<and> fcard ([{|''tp53'', ''x''|}, {|''p53'', ''trp53''|}] ! 0)
       \<le> fcard ([{|''tp53'', ''x''|}, {|''p53'', ''trp53''|}, {|''tp53'', ''x'', ''p53'', ''trp53''|}] ! 2)
   \<and> take (length [{|''tp53'', ''x''|}, {|''p53'', ''trp53''|}])
         [{|''tp53'', ''x''|}, {|''p53'', ''trp53''|}, {|''tp53'', ''x'', ''p53'', ''trp53''|}]
       = [{|''tp53'', ''x''|}, {|''p53'', ''trp53''|}]"
proof -
  let ?st = "[{|''tp53'', ''x''|}, {|''p53'', ''trp53''|}]"
  let ?d = "[(''tp53'', 1 :: nat)]"
  let ?st' = "[{|''tp53'', ''x''|}, {|''p53'', ''trp53''|}, {|''tp53'', ''x'', ''p53'', ''trp53''|}]"
  have run: "expand_gene_set_with_synonyms_store 0 ?d ?st = (2, ?st')"
    by code_simp
  have h1: "(0 :: nat) < length ?st"
    by simp
  have h2: "\<forall>(k, a) \<in> set ?d. a < length ?st"
    by simp
  note t = expand_size_and_purity [OF h1 h2 run]
  have a: "fcard (?st ! 0) \<le> fcard (?st' ! 2)"
    by (rule t [THEN conjunct2, THEN conjunct1])
  have b: "take (length ?st) ?st' = ?st"
    by (rule t [THEN conjunct2, THEN conjunct2, THEN conjunct2, THEN conjunct2,
          THEN conjunct2, THEN conjunct1])
  from run a b show ?thesis
    by (intro conjI)
qed

section \<open>Properties of the index\<close>

lemma load_rows_Inr:
  "load_rows rows acc = Inr d \<Longrightarrow>
     (\<forall>r \<in> set rows. row_Symbol r \<noteq> None) \<and> d = fold store_row rows acc"
  by (induction rows arbitrary: acc)
     (auto simp: store_row_def row_key_def Let_def split: option.splits)

lemma load_rows_error: "load_rows rows acc = Inl e \<Longrightarrow> e = AttributeError"
  by (induction rows arbitrary: acc) (auto simp: Let_def split: option.splits)

lemma distinct_fold_store_row:
  "distinct (map fst acc) \<Longrightarrow> distinct (map fst (fold store_row rows acc))"
  by (induction rows arbitrary: acc) (simp_all add: store_row_def distinct_update)

lemma keys_fold_store_row:
  "fst ` set (fold store_row rows acc) = fst ` set acc \<union> (\<lambda>r. the (row_key r)) ` set rows"
  by (induction rows arbitrary: acc) (auto simp: store_row_def dom_update)

lemma map_of_fold_store_row_other:
  "\<forall>r \<in> set rows. the (row_key r) \<noteq> k \<Longrightarrow> map_of (fold store_row rows acc) k = map_of acc k"
  by (induction rows arbitrary: acc) (auto simp: store_row_def update_conv')

lemma map_of_fold_store_row_last:
  assumes "\<forall>r' \<in> set post. the (row_key r') \<noteq> the (row_key r)"
  shows "map_of (fold store_row (pre @ r # post) acc) (the (row_key r))
         = Some (fset_of_list (row_synonyms (row_Synonyms r)))"
  using assms by (simp add: map_of_fold_store_row_other) (simp add: store_row_def update_conv')

lemma set_update_cases:
  "(k, v) \<in> set (AList.update k' v' al) \<Longrightarrow> (k = k' \<and> v = v') \<or> (k, v) \<in> set al"
  by (induction al) (auto split: if_splits)

lemma entry_fold_store_row:
  "(k, v) \<in> set (fold store_row rows acc) \<Longrightarrow>
     (k, v) \<in> set acc \<or>
     (\<exists>r \<in> set rows. k = the (row_key r) \<and> v = fset_of_list (row_synonyms (row_Synonyms r)))"
proof (induction rows arbitrary: acc)
  case Nil
  then show ?case by simp
next
  case (Cons r rows)
  from Cons.prems have "(k, v) \<in> set (fold store_row rows (store_row r acc))" by simp
  then have "(k, v) \<in> set (store_row r acc) \<or>
     (\<exists>r \<in> set rows. k = the (row_key r) \<and> v = fset_of_list (row_synonyms (row_Synonyms r)))"
    by (rule Cons.IH)
  then show ?case
    by (auto simp: store_row_def dest: set_update_cases)
qed

lemma row_synonyms_member:
  "x \<in> set (row_synonyms field) \<longleftrightarrow>
     (\<exists>s. field = Some s \<and> s \<noteq> [] \<and> (\<exists>p \<in> set (split CHR ''|'' s). x = lower (strip p)))"
  by (cases field) (auto simp: row_synonyms_def)

lemma lower_strip_Nil_iff: "lower (strip p) = [] \<longleftrightarrow> (\<forall>c \<in> set p. isspace c)"
  by (simp add: lower_Nil_iff strip_Nil_iff)

lemma load_gene_info_Inr:
  "load_gene_info fieldnames rows = Inr d \<Longrightarrow>
     (\<forall>r \<in> set rows. row_Symbol r \<noteq> None) \<and> d = fold store_row rows []"
  by (auto simp: load_gene_info_def split: option.splits if_splits dest: load_rows_Inr)

text \<open>
  C8: in the index that \<open>load_gene_info\<close> returns every key occurs once, the keys are
  the normalized symbols of the rows, and a key maps to the synonym set of the last row
  that has it; if that row's synonym field is empty, the key is there and maps to the empty
  set.
\<close>

theorem load_gene_info_last_wins:
  assumes "load_gene_info fieldnames rows = Inr d"
    and "rows = pre @ r # post"
    and "\<forall>r' \<in> set post. row_key r' \<noteq> row_key r"
  shows "distinct (map fst d)
         \<and> fst ` set d = {k. \<exists>r' \<in> set rows. row_key r' = Some k}
         \<and> (\<exists>k. row_key r = Some k
                \<and> map_of d k = Some (fset_of_list (row_synonyms (row_Synonyms r)))
                \<and> (row_Synonyms r = Some [] \<longrightarrow> map_of d k = Some {||}))"
proof -
  from assms(1) have some: "\<forall>r \<in> set rows. row_Symbol r \<noteq> None"
    and d: "d = fold store_row rows []"
    by (auto dest: load_gene_info_Inr)
  have key: "\<exists>k. row_key r' = Some k" if "r' \<in> set rows" for r'
    using that some by (auto simp: row_key_def)
  have 1: "distinct (map fst d)"
    by (simp add: d distinct_fold_store_row)
  have 2: "fst ` set d = {k. \<exists>r' \<in> set rows. row_key r' = Some k}"
  proof -
    have "(\<lambda>r. the (row_key r)) ` set rows = {k. \<exists>r' \<in> set rows. row_key r' = Some k}"
      using key by force
    then show ?thesis by (simp add: d keys_fold_store_row)
  qed
  from assms(2) key [of r] obtain k where k: "row_key r = Some k"
    by auto
  have "\<forall>r' \<in> set post. the (row_key r') \<noteq> the (row_key r)"
  proof
    fix r' assume r': "r' \<in> set post"
    with assms(3) have "row_key r' \<noteq> row_key r" by blast
    moreover from r' assms(2) key [of r'] obtain k' where "row_key r' = Some k'" by auto
    ultimately show "the (row_key r') \<noteq> the (row_key r)" using k by simp
  qed
  then have "map_of d (the (row_key r)) = Some (fset_of_list (row_synonyms (row_Synonyms r)))"
    unfolding d assms(2) by (rule map_of_fold_store_row_last)
  with k have m: "map_of d k = Some (fset_of_list (row_synonyms (row_Synonyms r)))"
    by simp
  have e: "row_Synonyms r = Some [] \<longrightarrow> map_of d k = Some {||}"
  proof
    assume "row_Synonyms r = Some []"
    then have "row_synonyms (row_Synonyms r) = []"
      by (simp add: row_synonyms_def)
    with m show "map_of d k = Some {||}"
      by simp
  qed
  from k m e have 3: "\<exists>k. row_key r = Some k
                \<and> map_of d k = Some (fset_of_list (row_synonyms (row_Synonyms r)))
                \<and> (row_Synonyms r = Some [] \<longrightarrow> map_of d k = Some {||})"
    by blast
  from 1 2 3 show ?thesis by blast
qed

theorem load_gene_info_last_wins_witness:
  "load_gene_info (Some [''Symbol'', ''Synonyms''])
     [\<lparr>row_Symbol = Some ''TP53'', row_Synonyms = Some ''p53''\<rparr>,
      \<lparr>row_Symbol = Some ''BRCA1 '', row_Synonyms = Some ''''\<rparr>,
      \<lparr>row_Symbol = Some ''tp53'', row_Synonyms = Some ''TRP53|P53''\<rparr>]
   = Inr [(''tp53'', {|''trp53'', ''p53''|}), (''brca1'', {||})]
   \<and> map_of [(''tp53'', {|''trp53'', ''p53''|}), (''brca1'', {||})] ''brca1'' = Some {||}
   \<and> distinct (map fst [(''tp53'', {|''trp53'', ''p53''|}), (''brca1'', {||} :: gene fset)])"
proof -
  let ?r1 = "\<lparr>row_Symbol = Some ''TP53'', row_Synonyms = Some ''p53''\<rparr>"
  let ?r2 = "\<lparr>row_Symbol = Some ''BRCA1 '', row_Synonyms = Some ''''\<rparr>"
  let ?r3 = "\<lparr>row_Symbol = Some ''tp53'', row_Synonyms = Some ''TRP53|P53''\<rparr>"
  let ?d = "[(''tp53'', {|''trp53'', ''p53''|}), (''brca1'', {||})]"
  have run: "load_gene_info (Some [''Symbol'', ''Synonyms'']) [?r1, ?r2, ?r3] = Inr ?d"
    by code_simp
  have h2: "[?r1, ?r2, ?r3] = [?r1] @ ?r2 # [?r3]"
    by simp
  have k2: "row_key ?r2 = Some ''brca1''"
    by code_simp
  have "row_key ?r3 \<noteq> row_key ?r2"
    by code_simp
  then have h3: "\<forall>r' \<in> set [?r3]. row_key r' \<noteq> row_key ?r2"
    by simp
  from load_gene_info_last_wins [OF run h2 h3]
  have "distinct (map fst ?d)"
    and "\<exists>k. row_key ?r2 = Some k \<and> (row_Synonyms ?r2 = Some [] \<longrightarrow> map_of ?d k = Some {||})"
    by blast+
  with k2 run show ?thesis
    by simp
qed

text \<open>
  C3, as the spec has it, fails: an empty piece between two separators, or after the last
  one, is kept, and the synonym set contains the empty string.
\<close>

theorem load_gene_info_keeps_empty_pieces:
  "load_gene_info (Some [''GeneID'', ''Symbol'', ''Synonyms''])
     [\<lparr>row_Symbol = Some ''TP53'', row_Synonyms = Some ''p53||TRP53''\<rparr>]
   = Inr [(''tp53'', {|''p53'', '''', ''trp53''|})]"
  by code_simp

text \<open>
  C3, amended: every synonym set of the index is that of a row with that key, and holds
  exactly the trimmed and lowercased pieces of the row's synonym field split on the bar,
  all of them; the set is empty only when the field itself is empty or missing. The empty
  string is a synonym exactly when some piece consists of white space only.
\<close>

theorem load_gene_info_synonym_sets:
  assumes "load_gene_info fieldnames rows = Inr d"
    and "(k, v) \<in> set d"
  shows "\<exists>r \<in> set rows. row_key r = Some k
           \<and> (\<forall>x. x |\<in>| v \<longleftrightarrow>
                 (\<exists>s. row_Synonyms r = Some s \<and> s \<noteq> []
                      \<and> (\<exists>p \<in> set (split CHR ''|'' s). x = lower (strip p))))
           \<and> ([] |\<in>| v \<longleftrightarrow>
                 (\<exists>s. row_Synonyms r = Some s \<and> s \<noteq> []
                      \<and> (\<exists>p \<in> set (split CHR ''|'' s). \<forall>c \<in> set p. isspace c)))"
proof -
  from assms(1) have some: "\<forall>r \<in> set rows. row_Symbol r \<noteq> None"
    and d: "d = fold store_row rows []"
    by (auto dest: load_gene_info_Inr)
  from assms(2) obtain r where r: "r \<in> set rows" and k: "k = the (row_key r)"
    and v: "v = fset_of_list (row_synonyms (row_Synonyms r))"
    unfolding d by (auto dest: entry_fold_store_row)
  from r some k have rk: "row_key r = Some k"
    by (auto simp: row_key_def)
  have mem: "x |\<in>| v \<longleftrightarrow>
                 (\<exists>s. row_Synonyms r = Some s \<and> s \<noteq> []
                      \<and> (\<exists>p \<in> set (split CHR ''|'' s). x = lower (strip p)))" for x
    by (simp add: v fset_of_list.rep_eq row_synonyms_member)
  have "[] |\<in>| v \<longleftrightarrow>
                 (\<exists>s. row_Synonyms r = Some s \<and> s \<noteq> []
                      \<and> (\<exists>p \<in> set (split CHR ''|'' s). lower (strip p) = []))"
    unfolding mem by metis
  then have emp: "[] |\<in>| v \<longleftrightarrow>
                 (\<exists>s. row_Synonyms r = Some s \<and> s \<noteq> []
                      \<and> (\<exists>p \<in> set (split CHR ''|'' s). \<forall>c \<in> set p. isspace c))"
    by (simp only: lower_strip_Nil_iff)
  from r rk mem emp show ?thesis by blast
qed

theorem load_gene_info_synonym_sets_witness:
  "\<exists>r \<in> set [\<lparr>row_Symbol = Some ''TP53'', row_Synonyms = Some ''p53||TRP53''\<rparr>].
      row_key r = Some ''tp53''
      \<and> (\<forall>x. x |\<in>| {|''p53'', '''', ''trp53''|} \<longleftrightarrow>
            (\<exists>s. row_Synonyms r = Some s \<and> s \<noteq> []
                 \<and> (\<exists>p \<in> set (split CHR ''|'' s). x = lower (strip p))))
      \<and> ([] |\<in>| {|''p53'', '''', ''trp53''|} \<longleftrightarrow>
            (\<exists>s. row_Synonyms r = Some s \<and> s \<noteq> []
                 \<and> (\<exists>p \<in> set (split CHR ''|'' s). \<forall>c \<in> set p. isspace c)))"
proof -
  let ?rows = "[\<lparr>row_Symbol = Some ''TP53'', row_Synonyms = Some ''p53||TRP53''\<rparr>]"
  let ?d = "[(''tp53'', {|''p53'', '''', ''trp53''|})]"
  have run: "load_gene_info (Some [''GeneID'', ''Symbol'', ''Synonyms'']) ?rows = Inr ?d"
    by code_simp
  have h2: "(''tp53'', {|''p53'', '''', ''trp53''|}) \<in> set ?d"
    by (simp only: list.set insertI1)
  show ?thesis
    by (rule load_gene_info_synonym_sets [OF run h2])
qed

text \<open>With a header line, \<open>load_gene_info\<close> raises \<open>ValueError\<close> exactly when a required
  column is missing, before any row is read and before \<open>main\<close> compares anything.\<close>

lemma load_gene_info_missing_columns:
  "\<not> {''Symbol'', ''Synonyms''} \<subseteq> set fs \<Longrightarrow>
     load_gene_info (Some fs) rows = Inl ValueError
     \<and> main (Some fs) rows lines_a lines_b = Inl ValueError"
  by (simp add: load_gene_info_def main_def)

lemma load_gene_info_columns_present:
  "{''Symbol'', ''Synonyms''} \<subseteq> set fs \<Longrightarrow> load_gene_info (Some fs) rows \<noteq> Inl ValueError"
  by (auto simp: load_gene_info_def dest: load_rows_error)

text \<open>
  C9: a reference table without the required columns makes \<open>load_gene_info\<close> fail with
  the \<open>ValueError\<close> of line 27. On a file with no line at all there is no header, the
  reader's \<open>fieldnames\<close> is \<open>None\<close>, and the failure is the \<open>TypeError\<close> of
  \<open>set(None)\<close> instead.
\<close>

theorem load_gene_info_empty_file:
  "load_gene_info None [] = Inl TypeError
   \<and> main None [] [''tp53''] [''tp53''] = Inl TypeError"
  by (simp add: load_gene_info_def main_def)

section \<open>Properties of the comparison\<close>

lemma find_match_None_iff:
  "find_match gene_b d = None \<longleftrightarrow> (\<forall>(k, v) \<in> set d. gene_b \<noteq> k \<and> gene_b |\<notin>| v)"
  by (induction gene_b d rule: find_match.induct) auto

lemma find_match_Some_match:
  "find_match gene_b d = Some (k, v) \<Longrightarrow> (k, v) \<in> set d \<and> (gene_b = k \<or> gene_b |\<in>| v)"
  by (induction gene_b d rule: find_match.induct) (auto split: if_splits)

lemma find_match_first:
  assumes "\<forall>(k', v') \<in> set pre. gene_b \<noteq> k' \<and> gene_b |\<notin>| v'"
    and "gene_b = k \<or> gene_b |\<in>| v"
  shows "find_match gene_b (pre @ (k, v) # post) = Some (k, v)"
  using assms by (induction pre) auto

lemma compare_loop_map: "compare_loop d E bs = map (compare_gene d E) bs"
  by (induction bs) simp_all

lemma Gene_compare_gene: "Gene (compare_gene d E gene_b) = gene_b"
  by (simp add: compare_gene_def split: option.splits prod.splits)

lemma compare_gene_unmatched:
  "find_match gene_b d = None \<Longrightarrow>
   compare_gene d E gene_b = \<lparr>Gene = gene_b, Synonyms = '''', Present_in_A = ''False''\<rparr>"
  by (simp add: compare_gene_def str_bool_def sorted_list_of_fset.rep_eq)

lemma compare_gene_matched:
  "find_match gene_b d = Some (k, v) \<Longrightarrow>
   compare_gene d E gene_b =
     \<lparr>Gene = gene_b,
      Synonyms = join ''|'' (sorted_list_of_fset (finsert k v |-| {|gene_b|})),
      Present_in_A = str_bool (k |\<in>| E \<or> (\<exists>syn. syn |\<in>| v \<and> syn |\<in>| E))\<rparr>"
proof -
  have "(\<exists>syn |\<in>| v. syn |\<in>| E) \<longleftrightarrow> (\<exists>syn. syn |\<in>| v \<and> syn |\<in>| E)"
    by blast
  then show ?thesis if "find_match gene_b d = Some (k, v)"
    using that by (simp add: compare_gene_def)
qed

lemma compare_files_record:
  "r \<in> set (compare_files d A B) \<longleftrightarrow>
     (\<exists>gene_b. gene_b |\<in>| B \<and> r = compare_gene d (expand_gene_set_with_synonyms A d) gene_b)"
  by (auto simp: compare_files_def compare_loop_map)

lemma compare_files_record_of_gene:
  "r \<in> set (compare_files d A B) \<Longrightarrow>
     Gene r |\<in>| B \<and> r = compare_gene d (expand_gene_set_with_synonyms A d) (Gene r)"
  by (auto simp: compare_files_record Gene_compare_gene)

lemma compare_loop_count:
  "distinct bs \<Longrightarrow>
   length (filter (\<lambda>r. Gene r = g) (compare_loop d E bs)) = (if g \<in> set bs then 1 else 0)"
  by (induction bs) (auto simp: Gene_compare_gene)

lemma compare_loop_any_order:
  "set bs = fset B \<Longrightarrow>
   set (compare_loop d (expand_gene_set_with_synonyms A d) bs) = set (compare_files d A B)"
  by (simp add: compare_files_def compare_loop_map)

text \<open>
  C5: the output of \<open>compare_files\<close> has exactly one record for each gene of set B and
  none for any other gene.
\<close>

theorem compare_files_one_record_each:
  "length (filter (\<lambda>r. Gene r = g) (compare_files d A B)) = (if g |\<in>| B then 1 else 0)
   \<and> length (compare_files d A B) = fcard B"
proof
  show "length (filter (\<lambda>r. Gene r = g) (compare_files d A B)) = (if g |\<in>| B then 1 else 0)"
    by (simp add: compare_files_def compare_loop_count sorted_list_of_fset.rep_eq)
  have "length (compare_files d A B) = length (sorted_list_of_fset B)"
    by (simp add: compare_files_def compare_loop_map)
  also have "\<dots> = fcard B"
    by (simp add: sorted_list_of_fset.rep_eq fcard.rep_eq)
  finally show "length (compare_files d A B) = fcard B" .
qed

text \<open>
  C6: when the first item of the index that \<open>gene_b\<close> matches has key \<open>canon\<close> and
  synonym set \<open>syns\<close>, the record of \<open>gene_b\<close> has as its Synonyms field the names of
  \<open>{canon} \<union> syns\<close> other than \<open>gene_b\<close>, sorted and joined by bars (the empty string
  when there are none), and as its \<open>Present_in_A\<close> field \<open>True\<close> or \<open>False\<close> according to
  whether \<open>canon\<close> or one of \<open>syns\<close> is in the expanded set A.
\<close>

theorem compare_files_matched_record:
  assumes "d = pre @ (canon, syns) # post"
    and "\<forall>(k, v) \<in> set pre. gene_b \<noteq> k \<and> gene_b |\<notin>| v"
    and "gene_b = canon \<or> gene_b |\<in>| syns"
    and "r \<in> set (compare_files d A B)"
    and "Gene r = gene_b"
  shows "(\<exists>names. sorted names \<and> distinct names
            \<and> set names = insert canon (fset syns) - {gene_b}
            \<and> Synonyms r = join ''|'' names)
         \<and> (insert canon (fset syns) - {gene_b} = {} \<longrightarrow> Synonyms r = '''')
         \<and> Present_in_A r =
             (if canon |\<in>| expand_gene_set_with_synonyms A d
                 \<or> (\<exists>syn. syn |\<in>| syns \<and> syn |\<in>| expand_gene_set_with_synonyms A d)
              then ''True'' else ''False'')"
proof -
  let ?E = "expand_gene_set_with_synonyms A d"
  let ?names = "sorted_list_of_fset (finsert canon syns |-| {|gene_b|})"
  from assms(1-3) have m: "find_match gene_b d = Some (canon, syns)"
    by (simp add: find_match_first)
  from assms(4,5) have "r = compare_gene d ?E gene_b"
    by (auto dest: compare_files_record_of_gene)
  with m have r: "r = \<lparr>Gene = gene_b, Synonyms = join ''|'' ?names,
      Present_in_A = str_bool (canon |\<in>| ?E \<or> (\<exists>syn. syn |\<in>| syns \<and> syn |\<in>| ?E))\<rparr>"
    by (simp add: compare_gene_matched)
  have s: "set ?names = insert canon (fset syns) - {gene_b}"
    by simp
  have "sorted ?names \<and> distinct ?names"
    by (simp add: sorted_list_of_fset.rep_eq)
  with s r have 1: "\<exists>names. sorted names \<and> distinct names
            \<and> set names = insert canon (fset syns) - {gene_b}
            \<and> Synonyms r = join ''|'' names"
    by (intro exI [of _ ?names]) simp
  have 2: "insert canon (fset syns) - {gene_b} = {} \<longrightarrow> Synonyms r = ''''"
  proof
    assume "insert canon (fset syns) - {gene_b} = {}"
    with s have "set ?names = {}" by (simp only:)
    then have "?names = []" by (simp only: set_empty)
    with r show "Synonyms r = ''''" by simp
  qed
  from r have 3: "Present_in_A r =
             (if canon |\<in>| ?E \<or> (\<exists>syn. syn |\<in>| syns \<and> syn |\<in>| ?E)
              then ''True'' else ''False'')"
    by (simp add: str_bool_def)
  from 1 2 3 show ?thesis by blast
qed

theorem compare_files_matched_record_witness:
  "compare_files [(''tp53'', {|''p53''|}), (''foo'', {|''bar'', ''baz''|})] {|''foo''|} {|''bar''|}
     = [\<lparr>Gene = ''bar'', Synonyms = ''baz|foo'', Present_in_A = ''True''\<rparr>]
   \<and> (\<exists>names. sorted names \<and> distinct names
         \<and> set names = insert ''foo'' (fset {|''bar'', ''baz''|}) - {''bar''}
         \<and> ''baz|foo'' = join ''|'' names)"
proof -
  let ?d = "[(''tp53'', {|''p53''|}), (''foo'', {|''bar'', ''baz''|})]"
  let ?r = "\<lparr>Gene = ''bar'', Synonyms = ''baz|foo'', Present_in_A = ''True''\<rparr>"
  have run: "compare_files ?d {|''foo''|} {|''bar''|} = [?r]"
    by code_simp
  have h1: "?d = [(''tp53'', {|''p53''|})] @ (''foo'', {|''bar'', ''baz''|}) # []"
    by simp
  have h2: "\<forall>(k, v) \<in> set [(''tp53'', {|''p53''|})]. ''bar'' \<noteq> k \<and> ''bar'' |\<notin>| v"
    by simp
  have h3: "''bar'' = ''foo'' \<or> ''bar'' |\<in>| {|''bar'', ''baz''|}"
    by simp
  have h4: "?r \<in> set (compare_files ?d {|''foo''|} {|''bar''|})"
    by (simp only: run list.set insertI1)
  have h5: "Gene ?r = ''bar''"
    by simp
  from compare_files_matched_record [OF h1 h2 h3 h4 h5]
  have "\<exists>names. sorted names \<and> distinct names
         \<and> set names = insert ''foo'' (fset {|''bar'', ''baz''|}) - {''bar''}
         \<and> Synonyms ?r = join ''|'' names"
    by blast
  with run show ?thesis
    by simp
qed

text \<open>
  C10: when \<open>gene_b\<close> matches some item of the index and is itself in the expanded set
  A, its record says \<open>True\<close>.
\<close>

theorem compare_files_matched_present:
  assumes "(k, v) \<in> set d"
    and "gene_b = k \<or> gene_b |\<in>| v"
    and "gene_b |\<in>| expand_gene_set_with_synonyms A d"
    and "r \<in> set (compare_files d A B)"
    and "Gene r = gene_b"
  shows "Present_in_A r = ''True''"
proof -
  let ?E = "expand_gene_set_with_synonyms A d"
  from assms(1,2) have "find_match gene_b d \<noteq> None"
    by (auto simp: find_match_None_iff)
  then obtain canon syns where m: "find_match gene_b d = Some (canon, syns)"
    by auto
  then have "gene_b = canon \<or> gene_b |\<in>| syns"
    by (auto dest: find_match_Some_match)
  with assms(3) have p: "canon |\<in>| ?E \<or> (\<exists>syn. syn |\<in>| syns \<and> syn |\<in>| ?E)"
    by blast
  from assms(4,5) have "r = compare_gene d ?E gene_b"
    by (auto dest: compare_files_record_of_gene)
  with m p show ?thesis
    by (simp add: compare_gene_matched str_bool_def)
qed

theorem compare_files_matched_present_witness:
  "Present_in_A (hd (compare_files [(''tp53'', {|''p53'', ''trp53''|})] {|''p53''|} {|''p53''|})) = ''True''"
proof -
  let ?d = "[(''tp53'', {|''p53'', ''trp53''|})]"
  let ?r = "\<lparr>Gene = ''p53'', Synonyms = ''tp53|trp53'', Present_in_A = ''True''\<rparr>"
  have run: "compare_files ?d {|''p53''|} {|''p53''|} = [?r]"
    by code_simp
  have h1: "(''tp53'', {|''p53'', ''trp53''|}) \<in> set ?d"
    by simp
  have h2: "''p53'' = ''tp53'' \<or> ''p53'' |\<in>| {|''p53'', ''trp53''|}"
    by simp
  have h3: "''p53'' |\<in>| expand_gene_set_with_synonyms {|''p53''|} ?d"
    by code_simp
  have h4: "hd (compare_files ?d {|''p53''|} {|''p53''|}) \<in> set (compare_files ?d {|''p53''|} {|''p53''|})"
    by (simp add: run)
  have h5: "Gene (hd (compare_files ?d {|''p53''|} {|''p53''|})) = ''p53''"
    by (simp add: run)
  from compare_files_matched_present [OF h1 h2 h3 h4 h5] show ?thesis .
qed

text \<open>
  C1: a gene of set B that matches no item of the index gets an empty Synonyms field, and
  its \<open>Present_in_A\<close> is whether it is in the expanded set A. The code leaves
  \<open>present_in_a\<close> at its initial \<open>False\<close> on this path: here \<open>brca1\<close> is in file A
  and in file B and the record says \<open>False\<close>.
\<close>

theorem compare_files_unmatched_in_a:
  "compare_files [(''tp53'', {|''p53''|})] {|''brca1''|} {|''brca1''|}
     = [\<lparr>Gene = ''brca1'', Synonyms = '''', Present_in_A = ''False''\<rparr>]
   \<and> find_match ''brca1'' [(''tp53'', {|''p53''|})] = None
   \<and> ''brca1'' |\<in>| expand_gene_set_with_synonyms {|''brca1''|} [(''tp53'', {|''p53''|})]"
  by code_simp

section \<open>The scenarios of the specification\<close>

text \<open>Scenarios 1 to 4 of the specification, run through \<open>main\<close> on the cells and lines
  of the three files. The lines of the gene files end in a line feed, as the iteration
  over a file yields them.\<close>

lemma scenario_1:
  "main (Some [''Symbol'', ''Synonyms''])
     [\<lparr>row_Symbol = Some ''tp53'', row_Synonyms = Some ''p53|trp53''\<rparr>]
     [''p53'' @ [CHR 0x0A]] [''tp53'' @ [CHR 0x0A]]
   = Inr [\<lparr>Gene = ''tp53'', Synonyms = ''p53|trp53'', Present_in_A = ''True''\<rparr>]"
  by code_simp

lemma scenario_2:
  "main (Some [''Symbol'', ''Synonyms''])
     [\<lparr>row_Symbol = Some ''brca1'', row_Synonyms = Some ''''\<rparr>]
     [''brca2'' @ [CHR 0x0A]] [''brca1'' @ [CHR 0x0A]]
   = Inr [\<lparr>Gene = ''brca1'', Synonyms = '''', Present_in_A = ''False''\<rparr>]"
  by code_simp

lemma scenario_3:
  "main (Some [''Symbol'', ''Synonyms''])
     [\<lparr>row_Symbol = Some ''tp53'', row_Synonyms = Some ''p53|trp53''\<rparr>]
     [''p53'' @ [CHR 0x0A]] [''Unknown1'' @ [CHR 0x0A], [CHR 0x0A]]
   = Inr [\<lparr>Gene = ''unknown1'', Synonyms = '''', Present_in_A = ''False''\<rparr>]"
  by code_simp

lemma scenario_4:
  "main (Some [''Symbol'', ''Synonyms''])
     [\<lparr>row_Symbol = Some ''foo'', row_Synonyms = Some ''bar|baz''\<rparr>]
     [''foo'' @ [CHR 0x0A]] [''bar'' @ [CHR 0x0A]]
   = Inr [\<lparr>Gene = ''bar'', Synonyms = ''baz|foo'', Present_in_A = ''True''\<rparr>]"
  by code_simp

end
